theory Spec2Isabelle
  imports Main
begin

section \<open>Strings of the host language\<close>

text \<open>
  The inventory program is a Python script (\<^verbatim>\<open>inventory_final.py\<close>). Its text is modelled as
  \<^typ>\<open>string\<close> restricted to ASCII: \<^verbatim>\<open>str.upper\<close>, \<^verbatim>\<open>str.lower\<close> and \<^verbatim>\<open>str.strip\<close> are
  given on the ASCII range, where Python's whitespace is the characters 9 to 13 and 28 to 32.
\<close>

definition is_space :: "char \<Rightarrow> bool" where
  "is_space c = (let n = (of_char c :: nat) in (9 \<le> n \<and> n \<le> 13) \<or> (28 \<le> n \<and> n \<le> 32))"

definition strip :: "string \<Rightarrow> string" where
  "strip s = rev (dropWhile is_space (rev (dropWhile is_space s)))"

definition upper_char :: "char \<Rightarrow> char" where
  "upper_char c = (let n = (of_char c :: nat) in if 97 \<le> n \<and> n \<le> 122 then char_of (n - 32) else c)"

definition lower_char :: "char \<Rightarrow> char" where
  "lower_char c = (let n = (of_char c :: nat) in if 65 \<le> n \<and> n \<le> 90 then char_of (n + 32) else c)"

definition upper :: "string \<Rightarrow> string" where
  "upper s = map upper_char s"

definition lower :: "string \<Rightarrow> string" where
  "lower s = map lower_char s"

text \<open>\<^verbatim>\<open>s.split(sep)\<close> for a one-character separator: always at least one piece.\<close>

fun split_on :: "char \<Rightarrow> string \<Rightarrow> string list" where
  "split_on sep [] = [[]]"
| "split_on sep (c # cs) =
     (if c = sep then [] # split_on sep cs
      else (case split_on sep cs of
              [] \<Rightarrow> [[c]]
            | p # ps \<Rightarrow> (c # p) # ps))"

subsection \<open>Integers: \<^verbatim>\<open>int(str)\<close> and \<^verbatim>\<open>str(int)\<close>\<close>

text \<open>
  \<^verbatim>\<open>int(s)\<close> skips surrounding whitespace, reads an optional sign and then decimal digits,
  where single underscores may stand between two digits; anything else is a \<^verbatim>\<open>ValueError\<close>,
  here \<open>None\<close>. The whitespace that the number parsers skip is narrower than that of
  \<^verbatim>\<open>str.strip\<close>: the characters 9 to 13 and the blank, not the separators 28 to 31, so
  \<^verbatim>\<open>int\<close> rejects the character 28 followed by \<^verbatim>\<open>5\<close>, which \<^verbatim>\<open>strip\<close> turns into \<^verbatim>\<open>5\<close>.
  Python's integers are unbounded, hence \<^typ>\<open>int\<close>. (The interpreter's optional limit on the
  number of digits converted is not part of the model.)
\<close>

definition is_number_space :: "char \<Rightarrow> bool" where
  "is_number_space c = (let n = (of_char c :: nat) in (9 \<le> n \<and> n \<le> 13) \<or> n = 32)"

definition number_strip :: "string \<Rightarrow> string" where
  "number_strip s = rev (dropWhile is_number_space (rev (dropWhile is_number_space s)))"

definition is_digit :: "char \<Rightarrow> bool" where
  "is_digit c = (let n = (of_char c :: nat) in 48 \<le> n \<and> n \<le> 57)"

definition digit_val :: "char \<Rightarrow> nat" where
  "digit_val c = of_char c - 48"

fun digits_acc :: "nat \<Rightarrow> string \<Rightarrow> nat option" where
  "digits_acc a [] = Some a"
| "digits_acc a (c # cs) =
     (if is_digit c then digits_acc (10 * a + digit_val c) cs
      else if c = CHR ''_'' then
        (case cs of
           [] \<Rightarrow> None
         | d # ds \<Rightarrow> if is_digit d then digits_acc (10 * a + digit_val d) ds else None)
      else None)"

definition parse_digits :: "string \<Rightarrow> nat option" where
  "parse_digits s =
     (case s of
        [] \<Rightarrow> None
      | c # cs \<Rightarrow> if is_digit c then digits_acc (digit_val c) cs else None)"

definition int_literal :: "string \<Rightarrow> int option" where
  "int_literal t =
     (case t of
        [] \<Rightarrow> None
      | c # r \<Rightarrow>
          if c = CHR ''-'' then map_option (\<lambda>n. - int n) (parse_digits r)
          else if c = CHR ''+'' then map_option int (parse_digits r)
          else map_option int (parse_digits t))"

definition py_int :: "string \<Rightarrow> int option" where
  "py_int s = int_literal (number_strip s)"

definition digit_char :: "nat \<Rightarrow> char" where
  "digit_char d = char_of (48 + d)"

fun str_nat :: "nat \<Rightarrow> string" where
  "str_nat n = (if n < 10 then [digit_char n] else str_nat (n div 10) @ [digit_char (n mod 10)])"

definition str_int :: "int \<Rightarrow> string" where
  "str_int i = (if i < 0 then CHR ''-'' # str_nat (nat (- i)) else str_nat (nat i))"

section \<open>The record type \<^verbatim>\<open>Shoe\<close>\<close>

text \<open>
  \<^verbatim>\<open>cost\<close> is a Python \<^verbatim>\<open>float\<close>. The floating-point operations the program uses belong to the
  interpreter, not to the program; they are a parameter of the model, over a type \<open>'c\<close> of
  float values: \<^verbatim>\<open>float(str)\<close> (\<open>None\<close> is its \<^verbatim>\<open>ValueError\<close>), the text \<^verbatim>\<open>str(x)\<close> that an
  f-string inserts, the constant \<^verbatim>\<open>0.0\<close>, and the test \<^verbatim>\<open>x >= 0\<close>.
\<close>

record 'c float_ops =
  float_of_str :: "string \<Rightarrow> 'c option"
  float_str :: "'c \<Rightarrow> string"
  float_zero :: "'c"
  float_ge0 :: "'c \<Rightarrow> bool"

record 'c shoe =
  country :: string
  code :: string
  product :: string
  cost :: "'c"
  quantity :: int

text \<open>
  The constructor is called with text (by the loader) and with numbers (by the capture
  flow): \<^verbatim>\<open>float(x)\<close> and \<^verbatim>\<open>int(x)\<close> of a number return it.
\<close>

datatype 'c cost_arg = CostText string | CostNum 'c

datatype qty_arg = QtyText string | QtyNum int

text \<open>What the program prints, one constructor for each \<^verbatim>\<open>print\<close> and each \<^verbatim>\<open>input\<close> prompt.\<close>

datatype py_error = FileNotFoundError | StopIteration | EOFError

datatype 'c event =
    InvalidCost string string
  | InvalidQuantity string string
  | SkippingMalformedLine string
  | SuccessfullyLoaded nat
  | FileNotFound
  | FileCreated
  | CouldNotCreate
  | UnexpectedReadError py_error
  | CouldNotWrite
  | CaptureBanner
  | PromptCountry
  | CountryEmpty
  | PromptCode
  | CodeEmpty
  | CodeExists string
  | PromptProduct
  | ProductEmpty
  | PromptCost
  | CostNegative
  | CostInvalid
  | PromptQuantity
  | QuantityNegative
  | QuantityInvalid
  | ShoeAdded string string
  | RestockEmpty
  | ErrorFindingLowest
  | LowestStock "'c shoe"
  | PromptAddStock string string
  | PromptAddQuantity int
  | StockUpdated string int
  | AddNegative
  | AddInvalid
  | NoChanges
  | InvalidYesNo
  | SearchEmpty
  | PromptSearch
  | ShoeFound "'c shoe"
  | ShoeNotFound string

fun cost_arg_text :: "'c float_ops \<Rightarrow> 'c cost_arg \<Rightarrow> string" where
  "cost_arg_text F (CostText s) = s"
| "cost_arg_text F (CostNum x) = float_str F x"

fun qty_arg_text :: "qty_arg \<Rightarrow> string" where
  "qty_arg_text (QtyText s) = s"
| "qty_arg_text (QtyNum n) = str_int n"

fun py_float :: "'c float_ops \<Rightarrow> 'c cost_arg \<Rightarrow> 'c option" where
  "py_float F (CostText s) = float_of_str F s"
| "py_float F (CostNum x) = Some x"

fun py_int_arg :: "qty_arg \<Rightarrow> int option" where
  "py_int_arg (QtyText s) = py_int s"
| "py_int_arg (QtyNum n) = Some n"

text \<open>\<^verbatim>\<open>Shoe.__init__\<close>: the new object and what the constructor printed.\<close>

definition Shoe ::
  "'c float_ops \<Rightarrow> string \<Rightarrow> string \<Rightarrow> string \<Rightarrow> 'c cost_arg \<Rightarrow> qty_arg \<Rightarrow> 'c shoe \<times> 'c event list"
where
  "Shoe F co cd pr c q =
     (let (cst, ev1) = (case py_float F c of
                          Some x \<Rightarrow> (x, [])
                        | None \<Rightarrow> (float_zero F, [InvalidCost (cost_arg_text F c) cd]));
          (qty, ev2) = (case py_int_arg q of
                          Some n \<Rightarrow> (n, [])
                        | None \<Rightarrow> (0, [InvalidQuantity (qty_arg_text q) cd]))
      in (\<lparr>country = co, code = cd, product = pr, cost = cst, quantity = qty\<rparr>, ev1 @ ev2))"

definition to_file_string :: "'c float_ops \<Rightarrow> 'c shoe \<Rightarrow> string" where
  "to_file_string F s =
     country s @ '','' @ code s @ '','' @ product s @ '','' @ float_str F (cost s)
       @ '','' @ str_int (quantity s)"

section \<open>The process state and the backing file\<close>

text \<open>
  The global \<^verbatim>\<open>shoe_list\<close>, the text of \<^verbatim>\<open>inventory.txt\<close> (\<open>None\<close> when the file does not exist),
  whether the file can be opened for writing (when not, \<^verbatim>\<open>open(..., "w")\<close> raises an
  \<^verbatim>\<open>IOError\<close>), and the output so far. Other failures of the operating system are outside
  the model.
\<close>

record 'c world =
  shoe_list :: "'c shoe list"
  inventory_file :: "string option"
  writable :: bool
  out :: "'c event list"

definition print :: "'c event list \<Rightarrow> 'c world \<Rightarrow> 'c world" where
  "print es w = w\<lparr>out := out w @ es\<rparr>"

definition header_line :: string where
  "header_line = ''Country,Code,Product,Cost,Quantity''"

definition newline :: char where
  "newline = char_of (10 :: nat)"

definition carriage_return :: char where
  "carriage_return = char_of (13 :: nat)"

text \<open>Reading in text mode: \<^verbatim>\<open>\r\n\<close> and \<^verbatim>\<open>\r\<close> arrive as \<^verbatim>\<open>\n\<close>.\<close>

fun universal_newlines :: "string \<Rightarrow> string" where
  "universal_newlines [] = []"
| "universal_newlines [c] = (if c = carriage_return then [newline] else [c])"
| "universal_newlines (c # d # cs) =
     (if c = carriage_return then
        (if d = newline then newline # universal_newlines cs
         else newline # universal_newlines (d # cs))
      else c # universal_newlines (d # cs))"

text \<open>Iterating over a file yields its lines, each with its terminator.\<close>

fun file_lines :: "string \<Rightarrow> string list" where
  "file_lines [] = []"
| "file_lines (c # cs) =
     (if c = newline then [c] # file_lines cs
      else (case file_lines cs of
              [] \<Rightarrow> [[c]]
            | l # ls \<Rightarrow> (c # l) # ls))"

definition open_read :: "'c world \<Rightarrow> py_error + string list" where
  "open_read w =
     (case inventory_file w of
        None \<Rightarrow> Inl FileNotFoundError
      | Some text \<Rightarrow> Inr (file_lines (universal_newlines text)))"

definition next_line :: "string list \<Rightarrow> py_error + string list" where
  "next_line ls = (case ls of [] \<Rightarrow> Inl StopIteration | _ # rest \<Rightarrow> Inr rest)"

text \<open>
  The body of the loader's \<^verbatim>\<open>for\<close> loop. The two inner \<^verbatim>\<open>except\<close> clauses are not reached:
  the constructor handles its own \<^verbatim>\<open>ValueError\<close>, and the unpacking is guarded by the length
  test.
\<close>

definition read_line :: "'c float_ops \<Rightarrow> 'c world \<Rightarrow> string \<Rightarrow> 'c world" where
  "read_line F w line =
     (case split_on CHR '','' (strip line) of
        [co, cd, pr, c, q] \<Rightarrow>
          (let (s, evs) = Shoe F co cd pr (CostText c) (QtyText q)
           in (print evs w)\<lparr>shoe_list := shoe_list w @ [s]\<rparr>)
      | _ \<Rightarrow> print [SkippingMalformedLine (strip line)] w)"

definition read_body :: "'c float_ops \<Rightarrow> 'c world \<Rightarrow> py_error + 'c world" where
  "read_body F w =
     (case open_read w of
        Inl e \<Rightarrow> Inl e
      | Inr ls \<Rightarrow>
          (case next_line ls of
             Inl e \<Rightarrow> Inl e
           | Inr rest \<Rightarrow>
               (let w' = foldl (read_line F) w rest
                in Inr (print [SuccessfullyLoaded (length (shoe_list w'))] w'))))"

definition create_file :: "'c world \<Rightarrow> 'c world" where
  "create_file w =
     (if writable w
      then print [FileCreated] (w\<lparr>inventory_file := Some (header_line @ [newline])\<rparr>)
      else print [CouldNotCreate] w)"

definition read_shoes_data :: "'c float_ops \<Rightarrow> 'c world \<Rightarrow> 'c world" where
  "read_shoes_data F w =
     (let w0 = w\<lparr>shoe_list := []\<rparr>
      in case read_body F w0 of
           Inr w' \<Rightarrow> w'
         | Inl FileNotFoundError \<Rightarrow> create_file (print [FileNotFound] w0)
         | Inl e \<Rightarrow> print [UnexpectedReadError e] w0)"

definition file_text :: "'c float_ops \<Rightarrow> 'c shoe list \<Rightarrow> string" where
  "file_text F xs = header_line @ [newline] @ concat (map (\<lambda>s. to_file_string F s @ [newline]) xs)"

definition write_shoes_data :: "'c float_ops \<Rightarrow> 'c world \<Rightarrow> 'c world" where
  "write_shoes_data F w =
     (if writable w
      then w\<lparr>inventory_file := Some (file_text F (shoe_list w))\<rparr>
      else print [CouldNotWrite] w)"

section \<open>The interactive operations\<close>

text \<open>
  Standard input is the list of the lines still to be read. \<^verbatim>\<open>input(prompt)\<close> prints the
  prompt and returns the next line; at the end of the input it raises \<^verbatim>\<open>EOFError\<close>, which no
  operation catches. An operation returns either the exception with the state it leaves
  behind, or its result with the new state and the unread input. Every \<^verbatim>\<open>while True\<close> loop
  reads one line each time round, so it is a recursion on the input.
\<close>

type_synonym ('c, 'a) outcome = "(py_error \<times> 'c world) + ('a \<times> 'c world \<times> string list)"

fun ask_country :: "'c world \<Rightarrow> string list \<Rightarrow> ('c, string) outcome" where
  "ask_country w [] = Inl (EOFError, print [PromptCountry] w)"
| "ask_country w (l # ls) =
     (let w1 = print [PromptCountry] w; co = strip l
      in if co \<noteq> [] then Inr (co, w1, ls)
         else ask_country (print [CountryEmpty] w1) ls)"

fun ask_code :: "'c world \<Rightarrow> string list \<Rightarrow> ('c, string) outcome" where
  "ask_code w [] = Inl (EOFError, print [PromptCode] w)"
| "ask_code w (l # ls) =
     (let w1 = print [PromptCode] w; cd = upper (strip l)
      in if cd = [] then ask_code (print [CodeEmpty] w1) ls
         else if list_ex (\<lambda>s. code s = cd) (shoe_list w1)
         then ask_code (print [CodeExists cd] w1) ls
         else Inr (cd, w1, ls))"

fun ask_product :: "'c world \<Rightarrow> string list \<Rightarrow> ('c, string) outcome" where
  "ask_product w [] = Inl (EOFError, print [PromptProduct] w)"
| "ask_product w (l # ls) =
     (let w1 = print [PromptProduct] w; pr = strip l
      in if pr \<noteq> [] then Inr (pr, w1, ls)
         else ask_product (print [ProductEmpty] w1) ls)"

fun ask_cost :: "'c float_ops \<Rightarrow> 'c world \<Rightarrow> string list \<Rightarrow> ('c, 'c) outcome" where
  "ask_cost F w [] = Inl (EOFError, print [PromptCost] w)"
| "ask_cost F w (l # ls) =
     (let w1 = print [PromptCost] w
      in case float_of_str F (strip l) of
           None \<Rightarrow> ask_cost F (print [CostInvalid] w1) ls
         | Some c \<Rightarrow>
             if float_ge0 F c then Inr (c, w1, ls)
             else ask_cost F (print [CostNegative] w1) ls)"

fun ask_quantity :: "'c world \<Rightarrow> string list \<Rightarrow> ('c, int) outcome" where
  "ask_quantity w [] = Inl (EOFError, print [PromptQuantity] w)"
| "ask_quantity w (l # ls) =
     (let w1 = print [PromptQuantity] w
      in case py_int (strip l) of
           None \<Rightarrow> ask_quantity (print [QuantityInvalid] w1) ls
         | Some q \<Rightarrow>
             if q \<ge> 0 then Inr (q, w1, ls)
             else ask_quantity (print [QuantityNegative] w1) ls)"

definition capture_shoes :: "'c float_ops \<Rightarrow> 'c world \<Rightarrow> string list \<Rightarrow> ('c, unit) outcome" where
  "capture_shoes F w inp =
     (case ask_country (print [CaptureBanner] w) inp of
        Inl e \<Rightarrow> Inl e
      | Inr (co, w1, inp1) \<Rightarrow>
     (case ask_code w1 inp1 of
        Inl e \<Rightarrow> Inl e
      | Inr (cd, w2, inp2) \<Rightarrow>
     (case ask_product w2 inp2 of
        Inl e \<Rightarrow> Inl e
      | Inr (pr, w3, inp3) \<Rightarrow>
     (case ask_cost F w3 inp3 of
        Inl e \<Rightarrow> Inl e
      | Inr (c, w4, inp4) \<Rightarrow>
     (case ask_quantity w4 inp4 of
        Inl e \<Rightarrow> Inl e
      | Inr (q, w5, inp5) \<Rightarrow>
          (let (new_shoe, evs) = Shoe F co cd pr (CostNum c) (QtyNum q);
               w6 = (print evs w5)\<lparr>shoe_list := shoe_list w5 @ [new_shoe]\<rparr>;
               w7 = print [ShoeAdded pr cd] w6
           in Inr ((), write_shoes_data F w7, inp5)))))))"

text \<open>
  \<^verbatim>\<open>min(shoe_list, key=...)\<close> keeps the first item and replaces it only by an item whose key
  is strictly smaller. The operation then changes that object in place; every object of the
  list was created on its own, so the object is identified by its position.
\<close>

fun min_scan :: "'c shoe list \<Rightarrow> nat \<Rightarrow> nat \<times> int \<Rightarrow> nat \<times> int" where
  "min_scan [] i best = best"
| "min_scan (s # ss) i (bi, bk) =
     min_scan ss (Suc i) (if quantity s < bk then (i, quantity s) else (bi, bk))"

definition py_min_index :: "'c shoe list \<Rightarrow> nat option" where
  "py_min_index xs =
     (case xs of
        [] \<Rightarrow> None
      | s # ss \<Rightarrow> Some (fst (min_scan ss 1 (0, quantity s))))"

fun ask_add :: "'c float_ops \<Rightarrow> nat \<Rightarrow> 'c world \<Rightarrow> string list \<Rightarrow> ('c, unit) outcome" where
  "ask_add F i w [] =
     Inl (EOFError, print [PromptAddQuantity (quantity (shoe_list w ! i))] w)"
| "ask_add F i w (l # ls) =
     (let min_shoe = shoe_list w ! i;
          w1 = print [PromptAddQuantity (quantity min_shoe)] w
      in case py_int (strip l) of
           None \<Rightarrow> ask_add F i (print [AddInvalid] w1) ls
         | Some add_qty \<Rightarrow>
             if add_qty \<ge> 0 then
               (let min_shoe' = min_shoe\<lparr>quantity := quantity min_shoe + add_qty\<rparr>;
                    w2 = w1\<lparr>shoe_list := (shoe_list w1)[i := min_shoe']\<rparr>;
                    w3 = print [StockUpdated (code min_shoe') (quantity min_shoe')] w2
                in Inr ((), write_shoes_data F w3, ls))
             else ask_add F i (print [AddNegative] w1) ls)"

fun ask_restock :: "'c float_ops \<Rightarrow> nat \<Rightarrow> 'c world \<Rightarrow> string list \<Rightarrow> ('c, unit) outcome" where
  "ask_restock F i w [] =
     Inl (EOFError,
          print [PromptAddStock (product (shoe_list w ! i)) (code (shoe_list w ! i))] w)"
| "ask_restock F i w (l # ls) =
     (let min_shoe = shoe_list w ! i;
          w1 = print [PromptAddStock (product min_shoe) (code min_shoe)] w;
          choice = lower (strip l)
      in if choice = ''yes'' \<or> choice = ''y'' then ask_add F i w1 ls
         else if choice = ''no'' \<or> choice = ''n'' then Inr ((), print [NoChanges] w1, ls)
         else ask_restock F i (print [InvalidYesNo] w1) ls)"

definition re_stock :: "'c float_ops \<Rightarrow> 'c world \<Rightarrow> string list \<Rightarrow> ('c, unit) outcome" where
  "re_stock F w inp =
     (if shoe_list w = [] then Inr ((), print [RestockEmpty] w, inp)
      else case py_min_index (shoe_list w) of
             None \<Rightarrow> Inr ((), print [ErrorFindingLowest] w, inp)
           | Some i \<Rightarrow> ask_restock F i (print [LowestStock (shoe_list w ! i)] w) inp)"

fun find_shoe :: "string \<Rightarrow> 'c shoe list \<Rightarrow> 'c shoe option" where
  "find_shoe k [] = None"
| "find_shoe k (s # ss) = (if code s = k then Some s else find_shoe k ss)"

definition search_shoe :: "'c world \<Rightarrow> string list \<Rightarrow> ('c, unit) outcome" where
  "search_shoe w inp =
     (if shoe_list w = [] then Inr ((), print [SearchEmpty] w, inp)
      else case inp of
             [] \<Rightarrow> Inl (EOFError, print [PromptSearch] w)
           | l # ls \<Rightarrow>
               (let w1 = print [PromptSearch] w; search_code = upper (strip l)
                in case find_shoe search_code (shoe_list w1) of
                     Some found_shoe \<Rightarrow> Inr ((), print [ShoeFound found_shoe] w1, ls)
                   | None \<Rightarrow> Inr ((), print [ShoeNotFound search_code] w1, ls)))"

section \<open>A float implementation for examples\<close>

text \<open>
  To evaluate the operations on concrete inputs, the floats with a whole value, held as
  integers: \<open>n\<close> stands for the float \<open>n.0\<close>, printed as Python prints it, and read from a
  decimal literal with an optional fraction of zeros. Text that is no number (such as
  \<^verbatim>\<open>abc\<close>) is rejected as \<^verbatim>\<open>float\<close> rejects it; numbers outside this fragment are not used.
\<close>

definition whole_of_str :: "string \<Rightarrow> int option" where
  "whole_of_str s =
     (let t = number_strip s;
          a = takeWhile (\<lambda>c. c \<noteq> CHR ''.'') t;
          b = dropWhile (\<lambda>c. c \<noteq> CHR ''.'') t
      in if b = [] \<or> list_all (\<lambda>c. c = CHR ''0'') (tl b) then int_literal a else None)"

definition whole_floats :: "int float_ops" where
  "whole_floats =
     \<lparr>float_of_str = whole_of_str,
      float_str = (\<lambda>n. str_int n @ ''.0''),
      float_zero = 0,
      float_ge0 = (\<lambda>n. n \<ge> 0)\<rparr>"

section \<open>Notions used in the statements\<close>

text \<open>What one line of the file contributes to a load: its fields, its records, its messages.\<close>

definition line_fields :: "string \<Rightarrow> string list" where
  "line_fields line = split_on CHR '','' (strip line)"

definition line_shoes :: "'c float_ops \<Rightarrow> string \<Rightarrow> 'c shoe list" where
  "line_shoes F line =
     (case line_fields line of
        [co, cd, pr, c, q] \<Rightarrow> [fst (Shoe F co cd pr (CostText c) (QtyText q))]
      | _ \<Rightarrow> [])"

definition line_events :: "'c float_ops \<Rightarrow> string \<Rightarrow> 'c event list" where
  "line_events F line =
     (case line_fields line of
        [co, cd, pr, c, q] \<Rightarrow> snd (Shoe F co cd pr (CostText c) (QtyText q))
      | _ \<Rightarrow> [SkippingMalformedLine (strip line)])"

text \<open>The lines after the header, as the loader iterates over them.\<close>

definition data_lines :: "string \<Rightarrow> string list" where
  "data_lines text = tl (file_lines (universal_newlines text))"

text \<open>Text without a comma and without a line break.\<close>

definition plain_text :: "string \<Rightarrow> bool" where
  "plain_text s = list_all (\<lambda>c. c \<noteq> CHR '','' \<and> c \<noteq> newline \<and> c \<noteq> carriage_return) s"

text \<open>
  A record that the file format can hold: plain text fields, a country that does not begin
  with whitespace, and a cost whose text reads back as the same float.
\<close>

definition storable :: "'c float_ops \<Rightarrow> 'c shoe \<Rightarrow> bool" where
  "storable F s =
     (plain_text (country s) \<and> plain_text (code s) \<and> plain_text (product s)
      \<and> plain_text (float_str F (cost s))
      \<and> dropWhile is_space (country s) = country s
      \<and> float_of_str F (float_str F (cost s)) = Some (cost s))"

text \<open>The sign invariant of the data model: no negative cost, no negative quantity.\<close>

definition stock_ok :: "'c float_ops \<Rightarrow> 'c shoe list \<Rightarrow> bool" where
  "stock_ok F xs = list_all (\<lambda>s. float_ge0 F (cost s) \<and> 0 \<le> quantity s) xs"

section \<open>Sample data\<close>

text \<open>Four records with the quantities 5, 2, 2 and 9.\<close>

definition sample_stock :: "int shoe list" where
  "sample_stock =
     [\<lparr>country = ''SA'', code = ''A1'', product = ''Boot'', cost = 10, quantity = 5\<rparr>,
      \<lparr>country = ''UK'', code = ''B2'', product = ''Clog'', cost = 20, quantity = 2\<rparr>,
      \<lparr>country = ''US'', code = ''C3'', product = ''Pump'', cost = 30, quantity = 2\<rparr>,
      \<lparr>country = ''FR'', code = ''D4'', product = ''Mule'', cost = 40, quantity = 9\<rparr>]"

definition sample_world :: "int world" where
  "sample_world = \<lparr>shoe_list = sample_stock, inventory_file = None, writable = True, out = []\<rparr>"

text \<open>Two files: one with a line of four fields, one with a line whose numbers do not parse.\<close>

definition file_with_short_line :: string where
  "file_with_short_line =
     ''Country,Code,Product,Cost,Quantity'' @ [newline]
     @ ''SA,A1,Boot,10.0,5'' @ [newline]
     @ ''UK,B2,Clog,20.0'' @ [newline]
     @ ''US,C3,Pump,30.0,2'' @ [newline]"

definition file_with_bad_numbers :: string where
  "file_with_bad_numbers =
     ''Country,Code,Product,Cost,Quantity'' @ [newline]
     @ ''UK,B2,Clog,20.0,2'' @ [newline]
     @ ''SA,A1,Boot,abc,five'' @ [newline]
     @ ''US,C3,Pump,30.0,7'' @ [newline]"

definition empty_world :: "int world" where
  "empty_world = \<lparr>shoe_list = [], inventory_file = None, writable = True, out = []\<rparr>"

section \<open>Loading: missing and empty files\<close>

text \<open>
  Claim C10. When the backing file exists but is empty, skipping the header raises
  \<^verbatim>\<open>StopIteration\<close> inside the \<^verbatim>\<open>try\<close> block; the broad handler absorbs it, so the load
  returns normally, with the collection already cleared, the file untouched and one
  message printed.
\<close>

theorem load_empty_file_absorbs_StopIteration:
  "read_body F (w\<lparr>shoe_list := [], inventory_file := Some []\<rparr>) = Inl StopIteration
   \<and> read_shoes_data F (w\<lparr>inventory_file := Some []\<rparr>)
       = w\<lparr>shoe_list := [], inventory_file := Some [],
            out := out w @ [UnexpectedReadError StopIteration]\<rparr>"
  by (simp add: read_shoes_data_def read_body_def open_read_def next_line_def print_def)

text \<open>
  Claim C9. When the backing file does not exist (and can be created), the load creates it
  holding the header line only and leaves an empty collection. It prints that the file was
  not found and that it was created; no line is skipped and no field is coerced, so none of
  the loader's warnings appears, nor the count of loaded records.
\<close>

theorem load_missing_file_creates_header:
  assumes "writable w"
  shows "read_shoes_data F (w\<lparr>inventory_file := None\<rparr>)
           = w\<lparr>shoe_list := [],
                inventory_file := Some (''Country,Code,Product,Cost,Quantity'' @ [newline]),
                out := out w @ [FileNotFound, FileCreated]\<rparr>"
  using assms
  by (simp add: read_shoes_data_def read_body_def open_read_def create_file_def print_def
      header_line_def)

theorem load_missing_file_creates_header_witness:
  "writable \<lparr>shoe_list = [\<lparr>country = ''SA'', code = ''X1'', product = ''Boot'',
                             cost = (10::int), quantity = 3\<rparr>],
             inventory_file = None, writable = True, out = []\<rparr>
   \<and> read_shoes_data whole_floats
       \<lparr>shoe_list = [\<lparr>country = ''SA'', code = ''X1'', product = ''Boot'',
                       cost = 10, quantity = 3\<rparr>],
        inventory_file = None, writable = True, out = []\<rparr>
     = \<lparr>shoe_list = [],
        inventory_file = Some (''Country,Code,Product,Cost,Quantity'' @ [newline]),
        writable = True, out = [FileNotFound, FileCreated]\<rparr>"
  using load_missing_file_creates_header
    [of "\<lparr>shoe_list = [\<lparr>country = ''SA'', code = ''X1'', product = ''Boot'',
                          cost = 10, quantity = 3\<rparr>],
          inventory_file = None, writable = True, out = []\<rparr>" whole_floats]
  by simp

section \<open>Restock: the target\<close>


lemma min_scan_spec:
  "min_scan ss k (bi, bk) = (ri, rk) \<Longrightarrow>
     rk \<le> bk \<and> (\<forall>s\<in>set ss. rk \<le> quantity s) \<and>
     ((ri = bi \<and> rk = bk) \<or>
      (\<exists>j<length ss. ri = k + j \<and> quantity (ss ! j) = rk \<and> rk < bk
          \<and> (\<forall>j'<j. rk < quantity (ss ! j'))))"
proof (induction ss arbitrary: k bi bk)
  case Nil
  then show ?case by simp
next
  case (Cons s ss)
  show ?case
  proof (cases "quantity s < bk")
    case True
    with Cons.prems have run: "min_scan ss (Suc k) (k, quantity s) = (ri, rk)" by simp
    note ih = Cons.IH [OF run]
    from ih have le: "rk \<le> quantity s" and all: "\<forall>x\<in>set ss. rk \<le> quantity x" by auto
    from ih consider (keep) "ri = k" "rk = quantity s"
      | (later) j where "j < length ss" "ri = Suc k + j" "quantity (ss ! j) = rk"
          "rk < quantity s" "\<forall>j'<j. rk < quantity (ss ! j')"
      by auto
    then have "\<exists>j<length (s # ss). ri = k + j \<and> quantity ((s # ss) ! j) = rk \<and> rk < bk
          \<and> (\<forall>j'<j. rk < quantity ((s # ss) ! j'))"
    proof cases
      case keep
      with True show ?thesis by (intro exI [of _ 0]) simp
    next
      case later
      have "\<forall>j'<Suc j. rk < quantity ((s # ss) ! j')"
        using later(4,5) by (auto simp: less_Suc_eq_0_disj)
      with later True show ?thesis by (intro exI [of _ "Suc j"]) simp
    qed
    with le all True show ?thesis by auto
  next
    case False
    with Cons.prems have run: "min_scan ss (Suc k) (bi, bk) = (ri, rk)" by simp
    note ih = Cons.IH [OF run]
    from ih have le: "rk \<le> bk" and all: "\<forall>x\<in>set ss. rk \<le> quantity x" by auto
    from ih consider (keep) "ri = bi" "rk = bk"
      | (later) j where "j < length ss" "ri = Suc k + j" "quantity (ss ! j) = rk"
          "rk < bk" "\<forall>j'<j. rk < quantity (ss ! j')"
      by auto
    then have "(ri = bi \<and> rk = bk) \<or>
      (\<exists>j<length (s # ss). ri = k + j \<and> quantity ((s # ss) ! j) = rk \<and> rk < bk
          \<and> (\<forall>j'<j. rk < quantity ((s # ss) ! j')))"
    proof cases
      case keep
      then show ?thesis by simp
    next
      case later
      have "\<forall>j'<Suc j. rk < quantity ((s # ss) ! j')"
        using later(4,5) False by (auto simp: less_Suc_eq_0_disj)
      with later show ?thesis by (intro disjI2 exI [of _ "Suc j"]) simp
    qed
    with le all False show ?thesis by auto
  qed
qed

lemma py_min_index_first_minimum:
  assumes "xs \<noteq> []"
  shows "\<exists>i. py_min_index xs = Some i \<and> i < length xs
           \<and> (\<forall>j<length xs. quantity (xs ! i) \<le> quantity (xs ! j))
           \<and> (\<forall>j<i. quantity (xs ! i) < quantity (xs ! j))"
proof -
  from assms obtain s ss where xs: "xs = s # ss" by (cases xs) auto
  obtain ri rk where run: "min_scan ss (Suc 0) (0, quantity s) = (ri, rk)"
    by (cases "min_scan ss (Suc 0) (0, quantity s)")
  have idx: "py_min_index xs = Some ri" by (simp add: py_min_index_def xs run)
  note sp = min_scan_spec [OF run]
  from sp have le: "rk \<le> quantity s" and all: "\<forall>x\<in>set ss. rk \<le> quantity x" by auto
  from sp consider (keep) "ri = 0" "rk = quantity s"
    | (later) j where "j < length ss" "ri = Suc j" "quantity (ss ! j) = rk"
        "rk < quantity s" "\<forall>j'<j. rk < quantity (ss ! j')"
    by auto
  then have "ri < length xs \<and> quantity (xs ! ri) = rk \<and> (\<forall>j<ri. rk < quantity (xs ! j))"
  proof cases
    case keep
    then show ?thesis by (simp add: xs)
  next
    case later
    have "\<forall>j'<Suc j. rk < quantity ((s # ss) ! j')"
      using later(4,5) by (auto simp: less_Suc_eq_0_disj)
    with later show ?thesis by (simp add: xs)
  qed
  moreover have "\<forall>j<length xs. rk \<le> quantity (xs ! j)"
    using le all by (auto simp: xs nth_Cons split: nat.splits)
  ultimately show ?thesis using idx by auto
qed

text \<open>
  Claim C4. On a non-empty collection the restock operation takes as its target the record
  at the first position whose quantity is the least of the collection: no record has a
  smaller quantity, and every record before the target has a strictly larger one. The
  operation shows that record and asks about it. For the quantities 5, 2, 2, 9 the target
  is at index 1.
\<close>

theorem restock_targets_first_minimum:
  assumes "shoe_list w \<noteq> []"
  shows "\<exists>i. py_min_index (shoe_list w) = Some i \<and> i < length (shoe_list w)
           \<and> (\<forall>j<length (shoe_list w). quantity (shoe_list w ! i) \<le> quantity (shoe_list w ! j))
           \<and> (\<forall>j<i. quantity (shoe_list w ! i) < quantity (shoe_list w ! j))
           \<and> re_stock F w inp
               = ask_restock F i (print [LowestStock (shoe_list w ! i)] w) inp"
proof -
  from py_min_index_first_minimum [OF assms] obtain i where
    i: "py_min_index (shoe_list w) = Some i" "i < length (shoe_list w)"
       "\<forall>j<length (shoe_list w). quantity (shoe_list w ! i) \<le> quantity (shoe_list w ! j)"
       "\<forall>j<i. quantity (shoe_list w ! i) < quantity (shoe_list w ! j)"
    by blast
  have "re_stock F w inp = ask_restock F i (print [LowestStock (shoe_list w ! i)] w) inp"
    using assms i(1) by (simp add: re_stock_def)
  with i show ?thesis by blast
qed

theorem restock_targets_first_minimum_witness:
  "shoe_list sample_world \<noteq> []
   \<and> map quantity sample_stock = [5, 2, 2, 9]
   \<and> py_min_index sample_stock = Some 1
   \<and> re_stock whole_floats sample_world [''no'']
       = ask_restock whole_floats 1
           (print [LowestStock (sample_stock ! 1)] sample_world) [''no'']"
  using restock_targets_first_minimum
    [of "sample_world" whole_floats "[''no'']"]
  by (simp add: sample_world_def sample_stock_def py_min_index_def)

section \<open>Restock: the effect\<close>



section \<open>Capture\<close>

text \<open>
  Each prompt loop of the capture flow only prints: the collection and the file are the
  same when it returns, and when the input ends inside it.
\<close>

lemma ask_country_returns:
  "ask_country w inp = Inr (x, w', r) \<Longrightarrow>
     shoe_list w' = shoe_list w \<and> inventory_file w' = inventory_file w \<and> writable w' = writable w"
  by (induction inp arbitrary: w) (auto simp: Let_def print_def split: if_splits)

lemma ask_country_raises:
  "ask_country w inp = Inl (e, w') \<Longrightarrow>
     shoe_list w' = shoe_list w \<and> inventory_file w' = inventory_file w"
  by (induction inp arbitrary: w) (auto simp: Let_def print_def split: if_splits)

lemma ask_code_returns:
  "ask_code w inp = Inr (x, w', r) \<Longrightarrow>
     shoe_list w' = shoe_list w \<and> inventory_file w' = inventory_file w \<and> writable w' = writable w
     \<and> x \<noteq> [] \<and> x \<notin> code ` set (shoe_list w)"
proof (induction inp arbitrary: w)
  case Nil
  then show ?case by simp
next
  case (Cons l ls)
  let ?cd = "upper (strip l)"
  consider (empty) "?cd = []"
    | (taken) "?cd \<noteq> []" "?cd \<in> code ` set (shoe_list w)"
    | (fresh) "?cd \<noteq> []" "?cd \<notin> code ` set (shoe_list w)"
    by blast
  then show ?case
  proof cases
    case empty
    with Cons.prems have "ask_code (print [CodeEmpty] (print [PromptCode] w)) ls = Inr (x, w', r)"
      by (simp add: Let_def)
    from Cons.IH [OF this] show ?thesis by (simp add: print_def)
  next
    case taken
    then have "list_ex (\<lambda>s. code s = ?cd) (shoe_list (print [PromptCode] w))"
      by (auto simp: list_ex_iff print_def)
    with taken Cons.prems
    have "ask_code (print [CodeExists ?cd] (print [PromptCode] w)) ls = Inr (x, w', r)"
      by (simp add: Let_def)
    from Cons.IH [OF this] show ?thesis by (simp add: print_def)
  next
    case fresh
    then have "\<not> list_ex (\<lambda>s. code s = ?cd) (shoe_list (print [PromptCode] w))"
      by (auto simp: list_ex_iff print_def image_iff)
    with fresh Cons.prems show ?thesis by (auto simp: Let_def print_def)
  qed
qed

lemma ask_code_raises:
  "ask_code w inp = Inl (e, w') \<Longrightarrow>
     shoe_list w' = shoe_list w \<and> inventory_file w' = inventory_file w"
  by (induction inp arbitrary: w) (auto simp: Let_def print_def list_ex_iff split: if_splits)

lemma ask_product_returns:
  "ask_product w inp = Inr (x, w', r) \<Longrightarrow>
     shoe_list w' = shoe_list w \<and> inventory_file w' = inventory_file w \<and> writable w' = writable w"
  by (induction inp arbitrary: w) (auto simp: Let_def print_def split: if_splits)

lemma ask_product_raises:
  "ask_product w inp = Inl (e, w') \<Longrightarrow>
     shoe_list w' = shoe_list w \<and> inventory_file w' = inventory_file w"
  by (induction inp arbitrary: w) (auto simp: Let_def print_def split: if_splits)

lemma ask_cost_returns:
  "ask_cost F w inp = Inr (x, w', r) \<Longrightarrow>
     shoe_list w' = shoe_list w \<and> inventory_file w' = inventory_file w \<and> writable w' = writable w
     \<and> float_ge0 F x"
  by (induction inp arbitrary: w) (auto simp: Let_def print_def split: if_splits option.splits)

lemma ask_cost_raises:
  "ask_cost F w inp = Inl (e, w') \<Longrightarrow>
     shoe_list w' = shoe_list w \<and> inventory_file w' = inventory_file w"
  by (induction inp arbitrary: w) (auto simp: Let_def print_def split: if_splits option.splits)

lemma ask_quantity_returns:
  "ask_quantity w inp = Inr (x, w', r) \<Longrightarrow>
     shoe_list w' = shoe_list w \<and> inventory_file w' = inventory_file w \<and> writable w' = writable w
     \<and> 0 \<le> x"
  by (induction inp arbitrary: w) (auto simp: Let_def print_def split: if_splits option.splits)

lemma ask_quantity_raises:
  "ask_quantity w inp = Inl (e, w') \<Longrightarrow>
     shoe_list w' = shoe_list w \<and> inventory_file w' = inventory_file w"
  by (induction inp arbitrary: w) (auto simp: Let_def print_def split: if_splits option.splits)

lemma capture_shoes_raises:
  assumes "capture_shoes F w inp = Inl (e, w')"
  shows "shoe_list w' = shoe_list w \<and> inventory_file w' = inventory_file w"
  using assms
  by (auto simp: capture_shoes_def print_def Shoe_def write_shoes_data_def Let_def
      split: sum.splits prod.splits
      dest!: ask_country_returns ask_code_returns ask_product_returns ask_cost_returns ask_quantity_returns
        ask_country_raises ask_code_raises ask_product_raises ask_cost_raises ask_quantity_raises)

lemma capture_shoes_returns:
  assumes "capture_shoes F w inp = Inr (u, w', r)"
  shows "\<exists>s. shoe_list w' = shoe_list w @ [s] \<and> code s \<notin> code ` set (shoe_list w)
           \<and> float_ge0 F (cost s) \<and> 0 \<le> quantity s
           \<and> inventory_file w'
               = (if writable w then Some (file_text F (shoe_list w')) else inventory_file w)"
  using assms
  by (auto simp: capture_shoes_def print_def Shoe_def write_shoes_data_def Let_def
      split: sum.splits prod.splits if_splits
      dest!: ask_country_returns ask_code_returns ask_product_returns ask_cost_returns ask_quantity_returns
        ask_country_raises ask_code_raises ask_product_raises ask_cost_raises ask_quantity_raises)



section \<open>The sign invariant\<close>

text \<open>
  The two prompts of the restock operation work on the position found by \<^const>\<open>py_min_index\<close>,
  which is inside the list.
\<close>

lemma ask_add_returns:
  "ask_add F i w inp = Inr (u, w', r) \<Longrightarrow>
     \<exists>n\<ge>0. shoe_list w'
        = (shoe_list w)[i := (shoe_list w ! i)\<lparr>quantity := quantity (shoe_list w ! i) + n\<rparr>]"
proof (induction inp arbitrary: w)
  case Nil
  then show ?case by simp
next
  case (Cons l ls)
  let ?w1 = "print [PromptAddQuantity (quantity (shoe_list w ! i))] w"
  show ?case
  proof (cases "py_int (strip l)")
    case None
    with Cons.prems have "ask_add F i (print [AddInvalid] ?w1) ls = Inr (u, w', r)"
      by (simp add: Let_def)
    from Cons.IH [OF this] show ?thesis by (simp add: print_def)
  next
    case (Some n)
    show ?thesis
    proof (cases "0 \<le> n")
      case True
      with Some Cons.prems show ?thesis
        by (auto simp: Let_def print_def write_shoes_data_def intro!: exI [of _ n])
    next
      case False
      with Some Cons.prems have "ask_add F i (print [AddNegative] ?w1) ls = Inr (u, w', r)"
        by (simp add: Let_def)
      from Cons.IH [OF this] show ?thesis by (simp add: print_def)
    qed
  qed
qed

lemma ask_add_raises:
  "ask_add F i w inp = Inl (e, w') \<Longrightarrow> shoe_list w' = shoe_list w \<and> inventory_file w' = inventory_file w"
  by (induction inp arbitrary: w) (auto simp: Let_def print_def split: if_splits option.splits)

lemma ask_restock_returns:
  "ask_restock F i w inp = Inr (u, w', r) \<Longrightarrow>
     shoe_list w' = shoe_list w \<or>
     (\<exists>n\<ge>0. shoe_list w'
        = (shoe_list w)[i := (shoe_list w ! i)\<lparr>quantity := quantity (shoe_list w ! i) + n\<rparr>])"
proof (induction inp arbitrary: w)
  case Nil
  then show ?case by simp
next
  case (Cons l ls)
  let ?w1 = "print [PromptAddStock (product (shoe_list w ! i)) (code (shoe_list w ! i))] w"
  let ?choice = "lower (strip l)"
  consider (yes) "?choice = ''yes'' \<or> ?choice = ''y''"
    | (no) "\<not> (?choice = ''yes'' \<or> ?choice = ''y'')" "?choice = ''no'' \<or> ?choice = ''n''"
    | (other) "\<not> (?choice = ''yes'' \<or> ?choice = ''y'')" "\<not> (?choice = ''no'' \<or> ?choice = ''n'')"
    by blast
  then show ?case
  proof cases
    case yes
    with Cons.prems have "ask_add F i ?w1 ls = Inr (u, w', r)" by (auto simp: Let_def)
    from ask_add_returns [OF this] show ?thesis by (simp add: print_def)
  next
    case no
    with Cons.prems show ?thesis by (auto simp: Let_def print_def)
  next
    case other
    with Cons.prems have "ask_restock F i (print [InvalidYesNo] ?w1) ls = Inr (u, w', r)"
      by (auto simp: Let_def)
    from Cons.IH [OF this] show ?thesis by (simp add: print_def)
  qed
qed

lemma ask_restock_raises:
  "ask_restock F i w inp = Inl (e, w') \<Longrightarrow> shoe_list w' = shoe_list w \<and> inventory_file w' = inventory_file w"
proof (induction inp arbitrary: w)
  case Nil
  then show ?case by (auto simp: print_def)
next
  case (Cons l ls)
  let ?w1 = "print [PromptAddStock (product (shoe_list w ! i)) (code (shoe_list w ! i))] w"
  let ?choice = "lower (strip l)"
  consider (yes) "?choice = ''yes'' \<or> ?choice = ''y''"
    | (no) "\<not> (?choice = ''yes'' \<or> ?choice = ''y'')" "?choice = ''no'' \<or> ?choice = ''n''"
    | (other) "\<not> (?choice = ''yes'' \<or> ?choice = ''y'')" "\<not> (?choice = ''no'' \<or> ?choice = ''n'')"
    by blast
  then show ?case
  proof cases
    case yes
    with Cons.prems have "ask_add F i ?w1 ls = Inl (e, w')" by (auto simp: Let_def)
    from ask_add_raises [OF this] show ?thesis by (simp add: print_def)
  next
    case no
    with Cons.prems show ?thesis by (auto simp: Let_def print_def)
  next
    case other
    with Cons.prems have "ask_restock F i (print [InvalidYesNo] ?w1) ls = Inl (e, w')"
      by (auto simp: Let_def)
    from Cons.IH [OF this] show ?thesis by (simp add: print_def)
  qed
qed

lemma stock_ok_after_add:
  assumes "stock_ok F xs" "i < length xs" "0 \<le> n"
  shows "stock_ok F (xs[i := (xs ! i)\<lparr>quantity := quantity (xs ! i) + n\<rparr>])"
proof -
  have "float_ge0 F (cost s) \<and> 0 \<le> quantity s"
    if "s \<in> set (xs[i := (xs ! i)\<lparr>quantity := quantity (xs ! i) + n\<rparr>])" for s
  proof -
    from that have "s = (xs ! i)\<lparr>quantity := quantity (xs ! i) + n\<rparr> \<or> s \<in> set xs"
      using set_update_subset_insert [of xs i] by auto
    moreover have "float_ge0 F (cost (xs ! i)) \<and> 0 \<le> quantity (xs ! i)"
      using assms(1,2) by (simp add: stock_ok_def list_all_length)
    ultimately show ?thesis using assms(1,3) by (auto simp: stock_ok_def list_all_iff)
  qed
  then show ?thesis by (simp add: stock_ok_def list_all_iff)
qed

lemma re_stock_keeps_stock_ok:
  assumes ok: "stock_ok F (shoe_list w)"
    and run: "re_stock F w inp = Inr (u, w', r) \<or> re_stock F w inp = Inl (e, w')"
  shows "stock_ok F (shoe_list w')"
proof (cases "shoe_list w = []")
  case True
  with run ok show ?thesis by (auto simp: re_stock_def print_def)
next
  case False
  from py_min_index_first_minimum [OF False] obtain i where
    i: "py_min_index (shoe_list w) = Some i" "i < length (shoe_list w)" by blast
  let ?w1 = "print [LowestStock (shoe_list w ! i)] w"
  have sl: "shoe_list ?w1 = shoe_list w" by (simp add: print_def)
  from run False i(1)
  have "ask_restock F i ?w1 inp = Inr (u, w', r) \<or> ask_restock F i ?w1 inp = Inl (e, w')"
    by (simp add: re_stock_def)
  then show ?thesis
  proof
    assume "ask_restock F i ?w1 inp = Inr (u, w', r)"
    from ask_restock_returns [OF this] show ?thesis
      using ok i(2) stock_ok_after_add [of F "shoe_list w" i] by (auto simp: sl)
  next
    assume "ask_restock F i ?w1 inp = Inl (e, w')"
    from ask_restock_raises [OF this] show ?thesis using ok by (simp add: sl)
  qed
qed

text \<open>
  Claim C3, as amended. Whatever the collection holds, the record that a completed capture
  appends has a non-negative cost and a non-negative quantity, since capture accepts only
  values that pass its \<^verbatim>\<open>>= 0\<close> tests. And capture and restock preserve the invariant that
  no record has a negative cost or a negative quantity (restock adds a non-negative
  amount), for a normal return and for an operation cut short by the end of the input.
\<close>

theorem capture_and_restock_keep_signs:
  "(\<forall>inp u w' r. capture_shoes F w inp = Inr (u, w', r) \<longrightarrow>
       (\<exists>s. shoe_list w' = shoe_list w @ [s] \<and> float_ge0 F (cost s) \<and> 0 \<le> quantity s))
   \<and> (stock_ok F (shoe_list w) \<longrightarrow>
         (\<forall>inp u w' r. capture_shoes F w inp = Inr (u, w', r) \<longrightarrow> stock_ok F (shoe_list w'))
       \<and> (\<forall>inp e w'. capture_shoes F w inp = Inl (e, w') \<longrightarrow> stock_ok F (shoe_list w'))
       \<and> (\<forall>inp u w' r. re_stock F w inp = Inr (u, w', r) \<longrightarrow> stock_ok F (shoe_list w'))
       \<and> (\<forall>inp e w'. re_stock F w inp = Inl (e, w') \<longrightarrow> stock_ok F (shoe_list w')))"
proof (intro conjI impI)
  show "\<forall>inp u w' r. capture_shoes F w inp = Inr (u, w', r) \<longrightarrow>
       (\<exists>s. shoe_list w' = shoe_list w @ [s] \<and> float_ge0 F (cost s) \<and> 0 \<le> quantity s)"
  proof (intro allI impI)
    fix inp u w' r
    assume "capture_shoes F w inp = Inr (u, w', r)"
    from capture_shoes_returns [OF this]
    show "\<exists>s. shoe_list w' = shoe_list w @ [s] \<and> float_ge0 F (cost s) \<and> 0 \<le> quantity s"
      by blast
  qed
next
  assume ok: "stock_ok F (shoe_list w)"
  show "\<forall>inp u w' r. capture_shoes F w inp = Inr (u, w', r) \<longrightarrow> stock_ok F (shoe_list w')"
  proof (intro allI impI)
    fix inp u w' r
    assume "capture_shoes F w inp = Inr (u, w', r)"
    from capture_shoes_returns [OF this] ok show "stock_ok F (shoe_list w')"
      by (auto simp: stock_ok_def)
  qed
next
  assume ok: "stock_ok F (shoe_list w)"
  show "\<forall>inp e w'. capture_shoes F w inp = Inl (e, w') \<longrightarrow> stock_ok F (shoe_list w')"
  proof (intro allI impI)
    fix inp e w'
    assume "capture_shoes F w inp = Inl (e, w')"
    from capture_shoes_raises [OF this] ok show "stock_ok F (shoe_list w')" by simp
  qed
next
  assume ok: "stock_ok F (shoe_list w)"
  show "\<forall>inp u w' r. re_stock F w inp = Inr (u, w', r) \<longrightarrow> stock_ok F (shoe_list w')"
    using re_stock_keeps_stock_ok [OF ok] by blast
next
  assume ok: "stock_ok F (shoe_list w)"
  show "\<forall>inp e w'. re_stock F w inp = Inl (e, w') \<longrightarrow> stock_ok F (shoe_list w')"
    using re_stock_keeps_stock_ok [OF ok] by blast
qed

theorem capture_and_restock_keep_signs_witness:
  "stock_ok whole_floats (shoe_list sample_world)
   \<and> (case re_stock whole_floats sample_world [''y'', ''3''] of
        Inr (u, w', r) \<Rightarrow> stock_ok whole_floats (shoe_list w') \<and> r = []
      | Inl x \<Rightarrow> False)
   \<and> (case capture_shoes whole_floats sample_world [''ZA'', ''e5'', ''Clog'', ''12.0'', ''4''] of
        Inr (u, w', r) \<Rightarrow>
          stock_ok whole_floats (shoe_list w') \<and> length (shoe_list w') = 5
          \<and> (\<exists>s. shoe_list w' = shoe_list sample_world @ [s]
                 \<and> float_ge0 whole_floats (cost s) \<and> 0 \<le> quantity s)
      | Inl x \<Rightarrow> False)"
proof -
  have h: "stock_ok whole_floats (shoe_list sample_world)" by code_simp
  have r1: "case re_stock whole_floats sample_world [''y'', ''3''] of
        Inr (u, w', r) \<Rightarrow> r = [] | Inl x \<Rightarrow> False"
    by code_simp
  have r2: "case capture_shoes whole_floats sample_world [''ZA'', ''e5'', ''Clog'', ''12.0'', ''4''] of
        Inr (u, w', r) \<Rightarrow> length (shoe_list w') = 5 | Inl x \<Rightarrow> False"
    by code_simp
  note keep = capture_and_restock_keep_signs [of whole_floats sample_world]
  from r1 obtain u1 w1 where
    e1: "re_stock whole_floats sample_world [''y'', ''3''] = Inr (u1, w1, [])"
    by (auto split: sum.splits)
  from r2 obtain u2 w2 q2 where
    e2: "capture_shoes whole_floats sample_world [''ZA'', ''e5'', ''Clog'', ''12.0'', ''4'']
           = Inr (u2, w2, q2)" and l2: "length (shoe_list w2) = 5"
    by (auto split: sum.splits)
  from keep h e1 have s1: "stock_ok whole_floats (shoe_list w1)" by blast
  from keep h e2 have s2: "stock_ok whole_floats (shoe_list w2)" by blast
  from keep e2 have s3: "\<exists>s. shoe_list w2 = shoe_list sample_world @ [s]
                 \<and> float_ge0 whole_floats (cost s) \<and> 0 \<le> quantity s" by blast
  show ?thesis using h s1 s2 s3 l2 by (simp add: e1 e2)
qed

text \<open>
  Claim C3 as stated fails for the loader, which has no such test: it stores what \<^verbatim>\<open>float\<close> and \<^verbatim>\<open>int\<close> read. A file with the
  data line \<^verbatim>\<open>SA,A1,Boot,-10.0,-3\<close> loads, without any message, into a record of cost \<open>-10.0\<close>
  and quantity \<open>-3\<close>, so the invariant does not hold for every record of the collection, and
  a reload does not preserve it.
\<close>

theorem load_accepts_negative_numbers:
  "read_shoes_data whole_floats
     \<lparr>shoe_list = [],
      inventory_file = Some (''Country,Code,Product,Cost,Quantity'' @ [newline]
                             @ ''SA,A1,Boot,-10.0,-3'' @ [newline]),
      writable = True, out = []\<rparr>
   = \<lparr>shoe_list = [\<lparr>country = ''SA'', code = ''A1'', product = ''Boot'', cost = - 10,
                     quantity = - 3\<rparr>],
      inventory_file = Some (''Country,Code,Product,Cost,Quantity'' @ [newline]
                             @ ''SA,A1,Boot,-10.0,-3'' @ [newline]),
      writable = True, out = [SuccessfullyLoaded 1]\<rparr>
   \<and> \<not> stock_ok whole_floats
         [\<lparr>country = ''SA'', code = ''A1'', product = ''Boot'', cost = - 10, quantity = - 3\<rparr>]"
  by code_simp

section \<open>Search\<close>

lemma find_shoe_Some:
  "find_shoe k xs = Some s \<Longrightarrow>
     \<exists>i<length xs. xs ! i = s \<and> code s = k \<and> (\<forall>j<i. code (xs ! j) \<noteq> k)"
proof (induction xs)
  case Nil
  then show ?case by simp
next
  case (Cons x xs)
  show ?case
  proof (cases "code x = k")
    case True
    with Cons.prems show ?thesis by (intro exI [of _ 0]) simp
  next
    case False
    with Cons.prems have "find_shoe k xs = Some s" by simp
    from Cons.IH [OF this] obtain i where
      i: "i < length xs" "xs ! i = s" "code s = k" "\<forall>j<i. code (xs ! j) \<noteq> k" by blast
    have "\<forall>j<Suc i. code ((x # xs) ! j) \<noteq> k"
      using i(4) False by (auto simp: less_Suc_eq_0_disj)
    with i show ?thesis by (intro exI [of _ "Suc i"]) simp
  qed
qed

lemma find_shoe_None:
  "find_shoe k xs = None \<longleftrightarrow> (\<forall>s\<in>set xs. code s \<noteq> k)"
  by (induction xs) auto

text \<open>
  Claim C6, as amended. On an empty collection the search prints that the inventory is
  empty and returns without reading a query. On a non-empty collection it reads one line,
  strips and uppercases it, and reports the first record, in the order of the collection,
  whose stored code equals that key exactly, or that the key was not found when no record
  has it. In every case the collection and the file are as before.
\<close>

theorem search_finds_first_match:
  "(shoe_list w = [] \<longrightarrow> search_shoe w inp = Inr ((), print [SearchEmpty] w, inp))
   \<and> (shoe_list w \<noteq> [] \<longrightarrow>
        (\<exists>w'. search_shoe w (q # rest) = Inr ((), w', rest)
           \<and> shoe_list w' = shoe_list w \<and> inventory_file w' = inventory_file w
           \<and> ((\<exists>i<length (shoe_list w).
                   code (shoe_list w ! i) = upper (strip q)
                   \<and> (\<forall>j<i. code (shoe_list w ! j) \<noteq> upper (strip q))
                   \<and> out w' = out w @ [PromptSearch, ShoeFound (shoe_list w ! i)])
               \<or> ((\<forall>s\<in>set (shoe_list w). code s \<noteq> upper (strip q))
                   \<and> out w' = out w @ [PromptSearch, ShoeNotFound (upper (strip q))]))))"
proof (intro conjI impI)
  assume "shoe_list w = []"
  then show "search_shoe w inp = Inr ((), print [SearchEmpty] w, inp)"
    by (simp add: search_shoe_def)
next
  assume ne: "shoe_list w \<noteq> []"
  let ?k = "upper (strip q)"
  show "\<exists>w'. search_shoe w (q # rest) = Inr ((), w', rest)
           \<and> shoe_list w' = shoe_list w \<and> inventory_file w' = inventory_file w
           \<and> ((\<exists>i<length (shoe_list w).
                   code (shoe_list w ! i) = ?k
                   \<and> (\<forall>j<i. code (shoe_list w ! j) \<noteq> ?k)
                   \<and> out w' = out w @ [PromptSearch, ShoeFound (shoe_list w ! i)])
               \<or> ((\<forall>s\<in>set (shoe_list w). code s \<noteq> ?k)
                   \<and> out w' = out w @ [PromptSearch, ShoeNotFound ?k]))"
  proof (cases "find_shoe ?k (shoe_list w)")
    case None
    then have run: "search_shoe w (q # rest)
        = Inr ((), print [ShoeNotFound ?k] (print [PromptSearch] w), rest)"
      using ne by (simp add: search_shoe_def Let_def print_def)
    from None have "\<forall>s\<in>set (shoe_list w). code s \<noteq> ?k" by (simp add: find_shoe_None)
    then show ?thesis by (simp add: run print_def)
  next
    case (Some s)
    then have run: "search_shoe w (q # rest)
        = Inr ((), print [ShoeFound s] (print [PromptSearch] w), rest)"
      using ne by (simp add: search_shoe_def Let_def print_def)
    from find_shoe_Some [OF Some] obtain i where
      i: "i < length (shoe_list w)" "shoe_list w ! i = s" "code s = ?k"
         "\<forall>j<i. code (shoe_list w ! j) \<noteq> ?k" by blast
    have "\<exists>i<length (shoe_list w).
                   code (shoe_list w ! i) = ?k
                   \<and> (\<forall>j<i. code (shoe_list w ! j) \<noteq> ?k)
                   \<and> out (print [ShoeFound s] (print [PromptSearch] w))
                       = out w @ [PromptSearch, ShoeFound (shoe_list w ! i)]"
      using i by (intro exI [of _ i]) (simp add: print_def)
    then show ?thesis by (simp add: run print_def)
  qed
qed

theorem search_finds_first_match_witness:
  "shoe_list sample_world \<noteq> []
   \<and> search_shoe sample_world ['' c3 '', ''more'']
       = Inr ((), sample_world\<lparr>out := [PromptSearch, ShoeFound (sample_stock ! 2)]\<rparr>, [''more''])
   \<and> shoe_list (sample_world\<lparr>shoe_list := []\<rparr>) = []
   \<and> search_shoe (sample_world\<lparr>shoe_list := []\<rparr>) [''c3'']
       = Inr ((), sample_world\<lparr>shoe_list := [], out := [SearchEmpty]\<rparr>, [''c3''])"
proof -
  have h1: "shoe_list sample_world \<noteq> []" by (simp add: sample_world_def sample_stock_def)
  have h2: "shoe_list (sample_world\<lparr>shoe_list := []\<rparr>) = []" by simp
  have r1: "search_shoe sample_world ['' c3 '', ''more'']
       = Inr ((), sample_world\<lparr>out := [PromptSearch, ShoeFound (sample_stock ! 2)]\<rparr>, [''more''])"
    by code_simp
  from search_finds_first_match [of "sample_world\<lparr>shoe_list := []\<rparr>" "[''c3'']"] h2
  have r2: "search_shoe (sample_world\<lparr>shoe_list := []\<rparr>) [''c3'']
       = Inr ((), print [SearchEmpty] (sample_world\<lparr>shoe_list := []\<rparr>), [''c3''])"
    by blast
  have "print [SearchEmpty] (sample_world\<lparr>shoe_list := []\<rparr>)
      = sample_world\<lparr>shoe_list := [], out := [SearchEmpty]\<rparr>"
    by (simp add: print_def sample_world_def)
  with r2 h1 h2 r1 show ?thesis by simp
qed

text \<open>
  Claim C6 as stated fails on two inputs. On the empty collection no query is read and the
  outcome is not the not-found message. And the query is stripped as well as uppercased:
  a stored code with a leading blank equals the uppercased query \<^verbatim>\<open>" a1"\<close>, yet the search
  looks for \<^verbatim>\<open>"A1"\<close> and reports it as not found.
\<close>

theorem search_empty_collection_and_padded_query:
  "search_shoe \<lparr>shoe_list = ([] :: int shoe list), inventory_file = None, writable = True, out = []\<rparr>
        [''a1'']
     = Inr ((), \<lparr>shoe_list = [], inventory_file = None, writable = True, out = [SearchEmpty]\<rparr>,
            [''a1''])
   \<and> upper '' a1'' = '' A1''
   \<and> search_shoe
        \<lparr>shoe_list = [\<lparr>country = ''SA'', code = '' A1'', product = ''Boot'', cost = (10::int),
                        quantity = 5\<rparr>],
         inventory_file = None, writable = True, out = []\<rparr>
        ['' a1'']
     = Inr ((),
            \<lparr>shoe_list = [\<lparr>country = ''SA'', code = '' A1'', product = ''Boot'', cost = 10,
                            quantity = 5\<rparr>],
             inventory_file = None, writable = True,
             out = [PromptSearch, ShoeNotFound ''A1'']\<rparr>,
            [])"
  by code_simp

section \<open>Loading: line by line\<close>

text \<open>
  The loop body adds to the collection and to the output what its line contributes, and
  nothing else; so a load is the concatenation of the contributions of the data lines.
\<close>

lemma read_line_eq:
  "read_line F w l
     = w\<lparr>shoe_list := shoe_list w @ line_shoes F l, out := out w @ line_events F l\<rparr>"
  by (simp add: read_line_def line_shoes_def line_events_def line_fields_def print_def
      split: list.splits prod.splits)

lemma foldl_read_line:
  "foldl (read_line F) w ls
     = w\<lparr>shoe_list := shoe_list w @ concat (map (line_shoes F) ls),
          out := out w @ concat (map (line_events F) ls)\<rparr>"
proof (induction ls arbitrary: w)
  case Nil
  show ?case by simp
next
  case (Cons l ls)
  have "foldl (read_line F) w (l # ls) = foldl (read_line F) (read_line F w l) ls"
    by simp
  also have "\<dots> = (read_line F w l)
      \<lparr>shoe_list := shoe_list (read_line F w l) @ concat (map (line_shoes F) ls),
       out := out (read_line F w l) @ concat (map (line_events F) ls)\<rparr>"
    by (rule Cons.IH)
  also have "\<dots> = w\<lparr>shoe_list := shoe_list w @ concat (map (line_shoes F) (l # ls)),
          out := out w @ concat (map (line_events F) (l # ls))\<rparr>"
    by (simp add: read_line_eq)
  finally show ?case .
qed

lemma read_shoes_data_lines:
  assumes "inventory_file w = Some text" "file_lines (universal_newlines text) = h # ls"
  shows "read_shoes_data F w
     = w\<lparr>shoe_list := concat (map (line_shoes F) ls),
          out := out w @ concat (map (line_events F) ls)
                   @ [SuccessfullyLoaded (length (concat (map (line_shoes F) ls)))]\<rparr>"
  using assms
  by (simp add: read_shoes_data_def read_body_def open_read_def next_line_def foldl_read_line
      print_def Let_def)

lemma read_shoes_data_no_lines:
  assumes "inventory_file w = Some text" "file_lines (universal_newlines text) = []"
  shows "read_shoes_data F w
     = w\<lparr>shoe_list := [], out := out w @ [UnexpectedReadError StopIteration]\<rparr>"
  using assms
  by (simp add: read_shoes_data_def read_body_def open_read_def next_line_def print_def Let_def)

lemma loaded_records:
  assumes "inventory_file w = Some text"
  shows "shoe_list (read_shoes_data F w) = concat (map (line_shoes F) (data_lines text))"
proof (cases "file_lines (universal_newlines text)")
  case Nil
  with read_shoes_data_no_lines [OF assms Nil] show ?thesis by (simp add: data_lines_def)
next
  case (Cons h ls)
  with read_shoes_data_lines [OF assms Cons] show ?thesis by (simp add: data_lines_def)
qed

lemma five_fields:
  "length xs = 5 \<Longrightarrow> xs = [xs ! 0, xs ! 1, xs ! 2, xs ! 3, xs ! 4]"
  by (auto simp: eval_nat_numeral length_Suc_conv)

lemma line_not_five:
  assumes "length (line_fields l) \<noteq> 5"
  shows "line_shoes F l = [] \<and> line_events F l = [SkippingMalformedLine (strip l)]"
  using assms by (auto simp: line_shoes_def line_events_def split: list.splits)

lemma loaded_output:
  assumes "inventory_file w = Some text" "l \<in> set (data_lines text)"
  shows "set (line_events F l) \<subseteq> set (out (read_shoes_data F w))"
proof (cases "file_lines (universal_newlines text)")
  case Nil
  with assms(2) show ?thesis by (simp add: data_lines_def)
next
  case (Cons h ls)
  with assms(2) have "l \<in> set ls" by (simp add: data_lines_def)
  then show ?thesis by (auto simp: read_shoes_data_lines [OF assms(1) Cons])
qed

text \<open>
  Claim C7. For every existing backing file, the loaded collection is made of the records
  of its data lines (the lines after the first), in order. A line that does not split on
  commas into exactly five fields contributes no record and a warning naming the line; a
  line with five fields contributes its record. So a file with one four-field line loads
  every record but that line's.
\<close>

theorem load_skips_malformed_lines:
  assumes "inventory_file w = Some text"
  shows "shoe_list (read_shoes_data F w) = concat (map (line_shoes F) (data_lines text))
       \<and> (\<forall>l. length (line_fields l) \<noteq> 5 \<longrightarrow> line_shoes F l = [])
       \<and> (\<forall>l. length (line_fields l) = 5 \<longrightarrow>
             line_shoes F l
               = [fst (Shoe F (line_fields l ! 0) (line_fields l ! 1) (line_fields l ! 2)
                        (CostText (line_fields l ! 3)) (QtyText (line_fields l ! 4)))])
       \<and> (\<forall>l\<in>set (data_lines text). length (line_fields l) \<noteq> 5 \<longrightarrow>
             SkippingMalformedLine (strip l) \<in> set (out (read_shoes_data F w)))"
proof (intro conjI allI ballI impI)
  show "shoe_list (read_shoes_data F w) = concat (map (line_shoes F) (data_lines text))"
    by (rule loaded_records [OF assms])
next
  fix l assume "length (line_fields l) \<noteq> 5"
  then show "line_shoes F l = []" by (simp add: line_not_five)
next
  fix l assume "length (line_fields l) = 5"
  from five_fields [OF this] show "line_shoes F l
               = [fst (Shoe F (line_fields l ! 0) (line_fields l ! 1) (line_fields l ! 2)
                        (CostText (line_fields l ! 3)) (QtyText (line_fields l ! 4)))]"
    by (metis (no_types, lifting) line_shoes_def list.simps(4,5))
next
  fix l assume l: "l \<in> set (data_lines text)" and "length (line_fields l) \<noteq> 5"
  then have "line_events F l = [SkippingMalformedLine (strip l)]" by (simp add: line_not_five)
  with loaded_output [OF assms l, of F]
  show "SkippingMalformedLine (strip l) \<in> set (out (read_shoes_data F w))" by simp
qed

theorem load_skips_malformed_lines_witness:
  "inventory_file (empty_world\<lparr>inventory_file := Some file_with_short_line\<rparr>)
     = Some file_with_short_line
   \<and> data_lines file_with_short_line
       = [''SA,A1,Boot,10.0,5'' @ [newline], ''UK,B2,Clog,20.0'' @ [newline],
          ''US,C3,Pump,30.0,2'' @ [newline]]
   \<and> length (line_fields (''UK,B2,Clog,20.0'' @ [newline])) = 4
   \<and> shoe_list (read_shoes_data whole_floats
        (empty_world\<lparr>inventory_file := Some file_with_short_line\<rparr>))
       = [\<lparr>country = ''SA'', code = ''A1'', product = ''Boot'', cost = 10, quantity = 5\<rparr>,
          \<lparr>country = ''US'', code = ''C3'', product = ''Pump'', cost = 30, quantity = 2\<rparr>]
   \<and> SkippingMalformedLine ''UK,B2,Clog,20.0''
       \<in> set (out (read_shoes_data whole_floats
                 (empty_world\<lparr>inventory_file := Some file_with_short_line\<rparr>)))"
proof -
  let ?w = "empty_world\<lparr>inventory_file := Some file_with_short_line\<rparr>"
  have h: "inventory_file ?w = Some file_with_short_line" by simp
  have dl: "data_lines file_with_short_line
       = [''SA,A1,Boot,10.0,5'' @ [newline], ''UK,B2,Clog,20.0'' @ [newline],
          ''US,C3,Pump,30.0,2'' @ [newline]]"
    by code_simp
  have len: "length (line_fields (''UK,B2,Clog,20.0'' @ [newline])) = 4" by code_simp
  have st: "strip (''UK,B2,Clog,20.0'' @ [newline]) = ''UK,B2,Clog,20.0''" by code_simp
  have recs: "concat (map (line_shoes whole_floats)
        [''SA,A1,Boot,10.0,5'' @ [newline], ''UK,B2,Clog,20.0'' @ [newline],
          ''US,C3,Pump,30.0,2'' @ [newline]])
       = [\<lparr>country = ''SA'', code = ''A1'', product = ''Boot'', cost = 10, quantity = 5\<rparr>,
          \<lparr>country = ''US'', code = ''C3'', product = ''Pump'', cost = 30, quantity = 2\<rparr>]"
    by code_simp
  note T = load_skips_malformed_lines [OF h, of whole_floats]
  from T have a: "shoe_list (read_shoes_data whole_floats ?w)
      = concat (map (line_shoes whole_floats) (data_lines file_with_short_line))" by blast
  from T have "\<forall>l\<in>set (data_lines file_with_short_line). length (line_fields l) \<noteq> 5 \<longrightarrow>
             SkippingMalformedLine (strip l) \<in> set (out (read_shoes_data whole_floats ?w))"
    by blast
  then have b: "SkippingMalformedLine ''UK,B2,Clog,20.0''
       \<in> set (out (read_shoes_data whole_floats ?w))"
    using len st by (simp add: dl)
  show ?thesis using h dl len a b recs by simp
qed

text \<open>
  Claim C8. A five-field data line always yields a record with the first three fields as
  they stand in the line: its cost is the float read from the fourth field, or \<open>0.0\<close> with a
  message when \<^verbatim>\<open>float\<close> rejects it; its quantity is the integer read from the fifth field,
  or \<open>0\<close> with a message when \<^verbatim>\<open>int\<close> rejects it. The records before and after it are those
  of the other lines.
  (A field that \<^verbatim>\<open>int\<close> rejects is, for instance, \<^verbatim>\<open>five\<close>, or \<^verbatim>\<open>5\<close> after the separator
  character 28, which \<^verbatim>\<open>int\<close> does not skip.)
\<close>

theorem load_coerces_bad_numbers:
  assumes fl: "inventory_file w = Some text"
    and lines: "data_lines text = pre @ [l] @ post"
    and fields: "line_fields l = [co, cd, pr, c, q]"
  shows "\<exists>s. shoe_list (read_shoes_data F w)
                = concat (map (line_shoes F) pre) @ [s] @ concat (map (line_shoes F) post)
           \<and> country s = co \<and> code s = cd \<and> product s = pr
           \<and> cost s = (case float_of_str F c of Some x \<Rightarrow> x | None \<Rightarrow> float_zero F)
           \<and> quantity s = (case py_int q of Some n \<Rightarrow> n | None \<Rightarrow> 0)
           \<and> (float_of_str F c = None \<longrightarrow>
                 cost s = float_zero F \<and> InvalidCost c cd \<in> set (out (read_shoes_data F w)))
           \<and> (py_int q = None \<longrightarrow>
                 quantity s = 0 \<and> InvalidQuantity q cd \<in> set (out (read_shoes_data F w)))"
proof -
  let ?s = "fst (Shoe F co cd pr (CostText c) (QtyText q))"
  have ls: "line_shoes F l = [?s]" by (simp add: line_shoes_def fields)
  have le: "line_events F l = snd (Shoe F co cd pr (CostText c) (QtyText q))"
    by (simp add: line_events_def fields)
  have recs: "shoe_list (read_shoes_data F w)
                = concat (map (line_shoes F) pre) @ [?s] @ concat (map (line_shoes F) post)"
    by (simp add: loaded_records [OF fl] lines ls)
  have "l \<in> set (data_lines text)" by (simp add: lines)
  from loaded_output [OF fl this, of F]
  have evs: "set (snd (Shoe F co cd pr (CostText c) (QtyText q)))
               \<subseteq> set (out (read_shoes_data F w))"
    by (simp add: le)
  have flds: "country ?s = co \<and> code ?s = cd \<and> product ?s = pr
           \<and> cost ?s = (case float_of_str F c of Some x \<Rightarrow> x | None \<Rightarrow> float_zero F)
           \<and> quantity ?s = (case py_int q of Some n \<Rightarrow> n | None \<Rightarrow> 0)"
    by (simp add: Shoe_def split: option.splits)
  have c0: "InvalidCost c cd \<in> set (out (read_shoes_data F w))" if "float_of_str F c = None"
    using evs that by (auto simp: Shoe_def split: option.splits)
  have q0: "InvalidQuantity q cd \<in> set (out (read_shoes_data F w))" if "py_int q = None"
    using evs that by (auto simp: Shoe_def split: option.splits)
  show ?thesis
    using recs flds c0 q0 by (intro exI [of _ ?s]) simp
qed

theorem load_coerces_bad_numbers_witness:
  "inventory_file (empty_world\<lparr>inventory_file := Some file_with_bad_numbers\<rparr>)
     = Some file_with_bad_numbers
   \<and> data_lines file_with_bad_numbers
       = [''UK,B2,Clog,20.0,2'' @ [newline]] @ [''SA,A1,Boot,abc,five'' @ [newline]]
         @ [''US,C3,Pump,30.0,7'' @ [newline]]
   \<and> line_fields (''SA,A1,Boot,abc,five'' @ [newline]) = [''SA'', ''A1'', ''Boot'', ''abc'', ''five'']
   \<and> float_of_str whole_floats ''abc'' = None \<and> py_int ''five'' = None
   \<and> py_int [char_of (28::nat), CHR ''5''] = None
   \<and> shoe_list (read_shoes_data whole_floats
        (empty_world\<lparr>inventory_file := Some file_with_bad_numbers\<rparr>))
       = [\<lparr>country = ''UK'', code = ''B2'', product = ''Clog'', cost = 20, quantity = 2\<rparr>,
          \<lparr>country = ''SA'', code = ''A1'', product = ''Boot'', cost = 0, quantity = 0\<rparr>,
          \<lparr>country = ''US'', code = ''C3'', product = ''Pump'', cost = 30, quantity = 7\<rparr>]
   \<and> InvalidCost ''abc'' ''A1''
       \<in> set (out (read_shoes_data whole_floats
                 (empty_world\<lparr>inventory_file := Some file_with_bad_numbers\<rparr>)))"
proof -
  let ?w = "empty_world\<lparr>inventory_file := Some file_with_bad_numbers\<rparr>"
  have h: "inventory_file ?w = Some file_with_bad_numbers" by simp
  have dl: "data_lines file_with_bad_numbers
       = [''UK,B2,Clog,20.0,2'' @ [newline]] @ [''SA,A1,Boot,abc,five'' @ [newline]]
         @ [''US,C3,Pump,30.0,7'' @ [newline]]"
    by code_simp
  have lf: "line_fields (''SA,A1,Boot,abc,five'' @ [newline])
      = [''SA'', ''A1'', ''Boot'', ''abc'', ''five'']"
    by code_simp
  have bad: "float_of_str whole_floats ''abc'' = None" "py_int ''five'' = None"
    by code_simp+
  have sep: "py_int [char_of (28::nat), CHR ''5''] = None" by code_simp
  have pre: "concat (map (line_shoes whole_floats) [''UK,B2,Clog,20.0,2'' @ [newline]])
      = [\<lparr>country = ''UK'', code = ''B2'', product = ''Clog'', cost = 20, quantity = 2\<rparr>]"
    by code_simp
  have post: "concat (map (line_shoes whole_floats) [''US,C3,Pump,30.0,7'' @ [newline]])
      = [\<lparr>country = ''US'', code = ''C3'', product = ''Pump'', cost = 30, quantity = 7\<rparr>]"
    by code_simp
  have z: "float_zero whole_floats = 0" by (simp add: whole_floats_def)
  from load_coerces_bad_numbers [OF h dl lf, of whole_floats] obtain s where
    s: "shoe_list (read_shoes_data whole_floats ?w)
          = concat (map (line_shoes whole_floats) [''UK,B2,Clog,20.0,2'' @ [newline]]) @ [s]
            @ concat (map (line_shoes whole_floats) [''US,C3,Pump,30.0,7'' @ [newline]])"
       "country s = ''SA''" "code s = ''A1''" "product s = ''Boot''"
       "cost s = float_zero whole_floats" "quantity s = 0"
       "InvalidCost ''abc'' ''A1'' \<in> set (out (read_shoes_data whole_floats ?w))"
    using bad by auto
  have "s = \<lparr>country = ''SA'', code = ''A1'', product = ''Boot'', cost = 0, quantity = 0\<rparr>"
    using s(2-6) z by (cases s) simp
  with s(1,7) h dl lf bad sep show ?thesis by (simp only: pre post) simp
qed

section \<open>Saving and loading again\<close>

subsection \<open>Characters\<close>

lemma digit_char_props:
  assumes "d < 10"
  shows "is_digit (digit_char d)" "digit_val (digit_char d) = d"
  using assms by (simp_all add: is_digit_def digit_val_def digit_char_def Let_def)

lemma of_char_line_breaks:
  "(of_char newline :: nat) = 10" "(of_char carriage_return :: nat) = 13"
  by (simp_all add: newline_def carriage_return_def)

lemma is_digit_plain:
  assumes "is_digit c"
  shows "\<not> is_space c" "c \<noteq> CHR '',''" "c \<noteq> newline" "c \<noteq> carriage_return"
    "c \<noteq> CHR ''-''" "c \<noteq> CHR ''+''" "c \<noteq> CHR ''_''"
  using assms by (auto simp: is_digit_def is_space_def Let_def of_char_line_breaks)

lemma minus_plain:
  "\<not> is_space CHR ''-''" "CHR ''-'' \<noteq> newline" "CHR ''-'' \<noteq> carriage_return"
  "\<not> is_space CHR '',''" "is_space newline"
  by code_simp+

subsection \<open>Decimal text of integers\<close>

lemma str_nat_digits: "list_all is_digit (str_nat n)"
proof (induction n rule: str_nat.induct)
  case (1 n)
  show ?case
  proof (cases "n < 10")
    case True
    then show ?thesis by (simp add: digit_char_props)
  next
    case False
    then have "str_nat n = str_nat (n div 10) @ [digit_char (n mod 10)]" by simp
    moreover have "list_all is_digit (str_nat (n div 10))" using 1 False by simp
    ultimately show ?thesis by (simp add: digit_char_props del: str_nat.simps)
  qed
qed

lemma str_nat_nonempty: "str_nat n \<noteq> []"
  by (subst str_nat.simps) simp

lemma digits_acc_all_digits:
  "list_all is_digit ds \<Longrightarrow>
     digits_acc a ds = Some (foldl (\<lambda>a c. 10 * a + digit_val c) a ds)"
  by (induction ds arbitrary: a) simp_all

lemma parse_digits_all_digits:
  assumes "list_all is_digit ds" "ds \<noteq> []"
  shows "parse_digits ds = Some (foldl (\<lambda>a c. 10 * a + digit_val c) 0 ds)"
  using assms by (cases ds) (simp_all add: parse_digits_def digits_acc_all_digits)

lemma foldl_str_nat: "foldl (\<lambda>a c. 10 * a + digit_val c) 0 (str_nat n) = n"
proof (induction n rule: str_nat.induct)
  case (1 n)
  show ?case
  proof (cases "n < 10")
    case True
    then show ?thesis by (simp add: digit_char_props)
  next
    case False
    then have eq: "str_nat n = str_nat (n div 10) @ [digit_char (n mod 10)]" by simp
    have "foldl (\<lambda>a c. 10 * a + digit_val c) 0 (str_nat (n div 10)) = n div 10"
      using 1 False by simp
    then show ?thesis by (simp add: eq digit_char_props del: str_nat.simps)
  qed
qed

lemma parse_digits_str_nat: "parse_digits (str_nat n) = Some n"
  by (simp add: parse_digits_all_digits str_nat_digits str_nat_nonempty foldl_str_nat
      del: str_nat.simps)

lemma int_literal_str_int: "int_literal (str_int i) = Some i"
proof (cases "i < 0")
  case True
  then show ?thesis
    by (simp add: str_int_def int_literal_def parse_digits_str_nat del: str_nat.simps)
next
  case False
  obtain c cs where s: "str_nat (nat i) = c # cs"
    using str_nat_nonempty [of "nat i"] by (cases "str_nat (nat i)") auto
  have "is_digit c" using str_nat_digits [of "nat i"] by (simp add: s del: str_nat.simps)
  then have "c \<noteq> CHR ''-''" "c \<noteq> CHR ''+''" by (simp_all add: is_digit_plain)
  moreover have "parse_digits (c # cs) = Some (nat i)"
    using parse_digits_str_nat [of "nat i"] by (simp add: s del: str_nat.simps)
  ultimately show ?thesis using False
    by (simp add: str_int_def int_literal_def s del: str_nat.simps)
qed

subsection \<open>Text of one record\<close>

lemma str_int_chars:
  "c \<in> set (str_int i) \<Longrightarrow> is_digit c \<or> c = CHR ''-''"
  using str_nat_digits [of "nat i"] str_nat_digits [of "nat (- i)"]
  by (auto simp: str_int_def list_all_iff simp del: str_nat.simps split: if_splits)

lemma str_int_plain: "plain_text (str_int i)"
proof -
  have "c \<noteq> CHR '','' \<and> c \<noteq> newline \<and> c \<noteq> carriage_return" if "c \<in> set (str_int i)" for c
  proof -
    from str_int_chars [OF that] show ?thesis
    proof
      assume "is_digit c"
      then show ?thesis by (simp add: is_digit_plain)
    next
      assume "c = CHR ''-''"
      then show ?thesis by (simp add: minus_plain)
    qed
  qed
  then show ?thesis by (simp add: plain_text_def list_all_iff)
qed

lemma str_int_last: "str_int i \<noteq> [] \<and> is_digit (last (str_int i))"
proof -
  have "str_nat n \<noteq> [] \<and> is_digit (last (str_nat n))" for n
    using str_nat_digits [of n] str_nat_nonempty [of n]
    by (simp add: list_all_iff del: str_nat.simps)
  then show ?thesis by (simp add: str_int_def del: str_nat.simps)
qed

lemma str_int_hd: "\<not> is_space (hd (str_int i))"
proof -
  have "hd (str_int i) \<in> set (str_int i)" using str_int_last [of i] by simp
  from str_int_chars [OF this] show ?thesis by (auto simp: is_digit_plain minus_plain)
qed

lemma strip_id:
  assumes "s \<noteq> []" "\<not> is_space (hd s)" "\<not> is_space (last s)"
  shows "strip s = s"
proof -
  have a: "dropWhile is_space s = s" using assms(1,2) by (cases s) auto
  have "rev s \<noteq> []" "\<not> is_space (hd (rev s))" using assms(1,3) by (simp_all add: hd_rev)
  then have b: "dropWhile is_space (rev s) = rev s" by (cases "rev s") auto
  show ?thesis by (simp add: strip_def a b)
qed

lemma number_space_is_space: "is_number_space c \<Longrightarrow> is_space c"
  by (auto simp: is_number_space_def is_space_def Let_def)

lemma number_strip_id:
  assumes "s \<noteq> []" "\<not> is_number_space (hd s)" "\<not> is_number_space (last s)"
  shows "number_strip s = s"
proof -
  have a: "dropWhile is_number_space s = s" using assms(1,2) by (cases s) auto
  have "rev s \<noteq> []" "\<not> is_number_space (hd (rev s))"
    using assms(1,3) by (simp_all add: hd_rev)
  then have b: "dropWhile is_number_space (rev s) = rev s" by (cases "rev s") auto
  show ?thesis by (simp add: number_strip_def a b)
qed

lemma py_int_str_int: "py_int (str_int i) = Some i"
proof -
  have "\<not> is_space (last (str_int i))"
    using str_int_last [of i] by (simp add: is_digit_plain)
  then have "number_strip (str_int i) = str_int i"
    using str_int_last [of i] str_int_hd [of i] number_space_is_space
    by (intro number_strip_id) auto
  then show ?thesis by (simp add: py_int_def int_literal_str_int)
qed

lemma split_on_plain:
  "sep \<notin> set a \<Longrightarrow> split_on sep a = [a]"
  by (induction a) auto

lemma split_on_field:
  "sep \<notin> set a \<Longrightarrow> split_on sep (a @ sep # r) = a # split_on sep r"
  by (induction a) auto

lemma plain_text_no_comma: "plain_text s \<Longrightarrow> CHR '','' \<notin> set s"
  by (auto simp: plain_text_def list_all_iff)

lemma split_to_file_string:
  assumes "storable F s"
  shows "split_on CHR '','' (to_file_string F s)
           = [country s, code s, product s, float_str F (cost s), str_int (quantity s)]"
  using assms str_int_plain [of "quantity s"]
  by (simp add: to_file_string_def storable_def split_on_field split_on_plain plain_text_no_comma)

lemma dropWhile_prefix:
  assumes "dropWhile P xs = xs" "\<not> P c"
  shows "dropWhile P (xs @ c # r) = xs @ c # r"
proof -
  from assms(1) have "xs = [] \<or> \<not> P (hd xs)" by (simp add: dropWhile_eq_self_iff)
  then show ?thesis using assms(2) by (cases xs) auto
qed

lemma strip_record_line:
  assumes "storable F s"
  shows "strip (to_file_string F s @ [newline]) = to_file_string F s"
proof -
  let ?t = "to_file_string F s"
  obtain r where t: "?t = country s @ CHR '','' # r"
    by (simp add: to_file_string_def)
  have fr: "dropWhile is_space (?t @ [newline]) = ?t @ [newline]"
    using assms dropWhile_prefix [of is_space "country s" "CHR '',''" "r @ [newline]"]
    by (simp add: t storable_def minus_plain)
  have "?t = (country s @ '','' @ code s @ '','' @ product s @ '','' @ float_str F (cost s)
       @ '','') @ str_int (quantity s)"
    by (simp add: to_file_string_def)
  then have lst: "last ?t = last (str_int (quantity s))" and ne: "?t \<noteq> []"
    using str_int_last [of "quantity s"] by (simp_all del: append_assoc)
  have "\<not> is_space (last ?t)"
    using str_int_last [of "quantity s"] by (simp add: lst is_digit_plain)
  then have "\<not> is_space (hd (rev ?t))" using ne by (simp add: hd_rev)
  then have bk: "dropWhile is_space (rev ?t) = rev ?t"
    using ne by (cases "rev ?t") auto
  show ?thesis by (simp add: strip_def fr minus_plain bk)
qed

lemma line_of_record:
  assumes "storable F s"
  shows "line_shoes F (to_file_string F s @ [newline]) = [s]"
    and "line_events F (to_file_string F s @ [newline]) = []"
proof -
  have f: "line_fields (to_file_string F s @ [newline])
      = [country s, code s, product s, float_str F (cost s), str_int (quantity s)]"
    by (simp add: line_fields_def strip_record_line [OF assms] split_to_file_string [OF assms])
  have fl: "float_of_str F (float_str F (cost s)) = Some (cost s)"
    using assms by (simp add: storable_def)
  have "\<lparr>country = country s, code = code s, product = product s, cost = cost s,
         quantity = quantity s\<rparr> = s"
    by (cases s) simp
  then show "line_shoes F (to_file_string F s @ [newline]) = [s]"
    by (simp add: line_shoes_def f Shoe_def fl py_int_str_int)
  show "line_events F (to_file_string F s @ [newline]) = []"
    by (simp add: line_events_def f Shoe_def fl py_int_str_int)
qed

subsection \<open>Text of the whole file\<close>

lemma universal_newlines_id:
  "carriage_return \<notin> set t \<Longrightarrow> universal_newlines t = t"
  by (induction t rule: universal_newlines.induct) auto

lemma file_lines_line:
  "newline \<notin> set l \<Longrightarrow> file_lines (l @ newline # r) = (l @ [newline]) # file_lines r"
  by (induction l) auto

lemma file_lines_records:
  "\<forall>l\<in>set ls. newline \<notin> set l \<Longrightarrow>
     file_lines (concat (map (\<lambda>l. l @ [newline]) ls)) = map (\<lambda>l. l @ [newline]) ls"
  by (induction ls) (simp_all add: file_lines_line)

lemma plain_text_append [simp]:
  "plain_text (a @ b) \<longleftrightarrow> plain_text a \<and> plain_text b"
  by (simp add: plain_text_def)

lemma plain_text_no_break:
  "plain_text s \<Longrightarrow> newline \<notin> set s \<and> carriage_return \<notin> set s"
  by (auto simp: plain_text_def list_all_iff)

lemma header_line_no_break:
  "newline \<notin> set header_line" "carriage_return \<notin> set header_line"
  by code_simp+

lemma comma_no_break:
  "newline \<noteq> CHR '',''" "carriage_return \<noteq> CHR '',''"
  by code_simp+

lemma to_file_string_no_break:
  assumes "storable F s"
  shows "newline \<notin> set (to_file_string F s)" "carriage_return \<notin> set (to_file_string F s)"
  using assms str_int_plain [of "quantity s"]
  by (auto simp: to_file_string_def storable_def comma_no_break dest!: plain_text_no_break)

lemma line_breaks_differ: "carriage_return \<noteq> newline"
  by code_simp

lemma file_lines_file_text:
  assumes "list_all (storable F) xs"
  shows "file_lines (universal_newlines (file_text F xs))
           = (header_line @ [newline]) # map (\<lambda>s. to_file_string F s @ [newline]) xs"
proof -
  let ?body = "concat (map (\<lambda>l. l @ [newline]) (map (to_file_string F) xs))"
  have nl: "\<forall>l\<in>set (map (to_file_string F) xs). newline \<notin> set l"
    using assms by (auto simp: list_all_iff to_file_string_no_break)
  have cr: "\<forall>s\<in>set xs. carriage_return \<notin> set (to_file_string F s)"
    using assms by (auto simp: list_all_iff to_file_string_no_break)
  have shape: "file_text F xs = header_line @ newline # ?body"
    by (simp add: file_text_def comp_def)
  have "carriage_return \<notin> set ?body"
    using cr line_breaks_differ by auto
  then have "carriage_return \<notin> set (file_text F xs)"
    using header_line_no_break(2) line_breaks_differ by (simp add: shape)
  then have "universal_newlines (file_text F xs) = file_text F xs"
    by (rule universal_newlines_id)
  then have "file_lines (universal_newlines (file_text F xs))
      = file_lines (header_line @ newline # ?body)"
    by (simp only: shape)
  also have "\<dots> = (header_line @ [newline]) # file_lines ?body"
    by (rule file_lines_line [OF header_line_no_break(1)])
  also have "file_lines ?body = map (\<lambda>l. l @ [newline]) (map (to_file_string F) xs)"
    by (rule file_lines_records [OF nl])
  also have "map (\<lambda>l. l @ [newline]) (map (to_file_string F) xs)
      = map (\<lambda>s. to_file_string F s @ [newline]) xs"
    by (simp add: comp_def)
  finally show ?thesis .
qed

lemma records_of_lines:
  "list_all (storable F) xs \<Longrightarrow>
     concat (map (line_shoes F) (map (\<lambda>s. to_file_string F s @ [newline]) xs)) = xs
     \<and> concat (map (line_events F) (map (\<lambda>s. to_file_string F s @ [newline]) xs)) = []"
  by (induction xs) (simp_all add: line_of_record)

text \<open>
  Claim C1, as amended. Take a collection in which every record has text fields without a
  comma and without a line break, a country that does not begin with whitespace, and a cost
  whose text reads back as the same float. When the file can be written, saving the
  collection and loading the file yields the same records in the same order, equal field
  for field, cost and quantity as numbers; the file holds the header and one line per
  record, and the load prints only the count of the records.
\<close>

theorem save_then_load_round_trip:
  assumes "writable w" "list_all (storable F) (shoe_list w)"
  shows "shoe_list (read_shoes_data F (write_shoes_data F w)) = shoe_list w
       \<and> inventory_file (read_shoes_data F (write_shoes_data F w))
           = Some (file_text F (shoe_list w))
       \<and> out (read_shoes_data F (write_shoes_data F w))
           = out w @ [SuccessfullyLoaded (length (shoe_list w))]"
proof -
  let ?w = "write_shoes_data F w"
  let ?ls = "map (\<lambda>s. to_file_string F s @ [newline]) (shoe_list w)"
  have saved: "?w = w\<lparr>inventory_file := Some (file_text F (shoe_list w))\<rparr>"
    using assms(1) by (simp add: write_shoes_data_def)
  have fl: "inventory_file ?w = Some (file_text F (shoe_list w))"
    by (simp add: saved)
  have lines: "file_lines (universal_newlines (file_text F (shoe_list w)))
      = (header_line @ [newline]) # ?ls"
    by (rule file_lines_file_text [OF assms(2)])
  note recs = records_of_lines [OF assms(2)]
  have "read_shoes_data F ?w
      = ?w\<lparr>shoe_list := concat (map (line_shoes F) ?ls),
            out := out ?w @ concat (map (line_events F) ?ls)
                     @ [SuccessfullyLoaded (length (concat (map (line_shoes F) ?ls)))]\<rparr>"
    by (rule read_shoes_data_lines [OF fl lines])
  then have "read_shoes_data F ?w
      = ?w\<lparr>shoe_list := shoe_list w,
            out := out ?w @ [SuccessfullyLoaded (length (shoe_list w))]\<rparr>"
    using recs by simp
  then show ?thesis by (simp add: saved)
qed

theorem save_then_load_round_trip_witness:
  "writable sample_world \<and> list_all (storable whole_floats) (shoe_list sample_world)
   \<and> shoe_list (read_shoes_data whole_floats (write_shoes_data whole_floats sample_world))
       = sample_stock
   \<and> out (read_shoes_data whole_floats (write_shoes_data whole_floats sample_world))
       = [SuccessfullyLoaded 4]"
proof -
  have h1: "writable sample_world" by (simp add: sample_world_def)
  have h2: "list_all (storable whole_floats) (shoe_list sample_world)" by code_simp
  have sl: "shoe_list sample_world = sample_stock" "out sample_world = []"
    by (simp_all add: sample_world_def)
  have len: "length sample_stock = 4" by (simp add: sample_stock_def)
  from save_then_load_round_trip [OF h1 h2] show ?thesis
    using h1 h2 by (simp add: sl len)
qed

text \<open>
  Claim C1 as stated, with commas alone excluded, fails: the loader strips every line, so a
  country saved with a leading blank comes back without it; and a line break inside a
  field splits the record over two malformed lines, which are skipped.
\<close>

theorem save_then_load_loses_padding_and_line_breaks:
  "CHR '','' \<notin> set ('' SA'' @ ''A1'' @ ''Boot'' @ float_str whole_floats 10 @ str_int 5)
   \<and> shoe_list (read_shoes_data whole_floats (write_shoes_data whole_floats
         \<lparr>shoe_list = [\<lparr>country = '' SA'', code = ''A1'', product = ''Boot'', cost = 10,
                         quantity = 5\<rparr>],
          inventory_file = None, writable = True, out = []\<rparr>))
       = [\<lparr>country = ''SA'', code = ''A1'', product = ''Boot'', cost = 10, quantity = 5\<rparr>]
   \<and> CHR '','' \<notin> set (''SA'' @ ''A1'' @ (''Air'' @ [newline] @ ''Max'')
                        @ float_str whole_floats 10 @ str_int 5)
   \<and> shoe_list (read_shoes_data whole_floats (write_shoes_data whole_floats
         \<lparr>shoe_list = [\<lparr>country = ''SA'', code = ''A1'',
                         product = ''Air'' @ [newline] @ ''Max'', cost = 10, quantity = 5\<rparr>],
          inventory_file = None, writable = True, out = []\<rparr>))
       = []"
  by code_simp

end
